theory Spec2Isabelle
  imports Complex_Main "HOL-Library.Multiset"
begin

section \<open>PhotoSorter: album list and swipe review (src/1stFile.js)\<close>

text \<open>
  The application has two screens. Both are React function components: their state lives
  in \<open>useState\<close> cells and every handler reads the values of the render it was created in.
  The model passes that state explicitly, and records the observable effects
  (media-library calls and console output) in program order.

  The swipe handler is asynchronous. It is modelled twice. \<open>handleSwipe\<close> is one
  invocation of the handler followed from its first line to its last, the answers of the
  media library being given; it says what a single swipe does. \<open>handleSwipe_start\<close> and
  \<open>handleSwipe_resume\<close> are the same handler cut at its \<open>await\<close>s: a started handler
  waits, other events are taken meanwhile, and when it is resumed it still holds the
  values of the render it was created in. Whole sessions, in which swipes may overlap, are
  runs of the second model.

  JavaScript numbers that hold gesture displacements are modelled as \<open>real\<close> (only
  comparison, negation and absolute value are applied to them; NaN is not modelled). The
  index and the asset counts are integer-valued numbers and are modelled as \<open>int\<close>.
\<close>

subsection \<open>Data\<close>

record asset =
  asset_id :: string
  uri :: string

record album =
  album_id :: string
  title :: string

text \<open>The object \<open>{ ...album, assetCount: assets.totalCount }\<close> of lines 25-28.\<close>

record albumWithCount =
  awc_id :: string
  awc_title :: string
  assetCount :: int

text \<open>A rejected promise of the media library; the code never inspects the reason.\<close>

datatype lib_error = Rejected

text \<open>
  The calls into the media library. \<open>GetAssetsAsync i\<close> is the count query of line 26 for
  album \<open>i\<close>; \<open>GetPhotoAssetsAsync i n\<close> is the query of lines 75-80 for the first \<open>n\<close>
  photos of album \<open>i\<close> by creation time.
\<close>

datatype lib_call =
    RequestPermissionsAsync
  | GetAlbumsAsync
  | GetAssetsAsync string
  | GetPhotoAssetsAsync string nat
  | GetAlbumAsync string
  | CreateAlbumAsync string asset bool
  | AddAssetsToAlbumAsync "asset list" string bool

text \<open>The console messages of the source, one constructor per message.\<close>

datatype console_msg =
    PermissionDenied
  | NoPhotoAvailable
  | AlbumNotFoundCreating string
  | AlbumCreatedPhotoAdded string
  | PhotoAddedToExisting string
  | ErrorManagingPhoto
  | PhotosLogged "asset list"

datatype effect =
    Call lib_call
  | ConsoleLog console_msg
  | ConsoleError console_msg

subsection \<open>The media library as seen by the review screen\<close>

text \<open>
  The device media library is an external service. For the review screen it is modelled
  as the albums it holds by name. Each swipe carries a \<open>fault\<close>, chosen by the
  environment, that says which call of that swipe (if any) fails: a call that throws, or
  \<open>createAlbumAsync\<close> resolving to a null album (the case line 125 checks for).
  A call that succeeds has the effect its name promises: the created album holds the
  seeding asset, an addition appends the asset to the album.
\<close>

type_synonym media_library = "string \<rightharpoonup> asset list"

datatype fault =
    NoFault
  | GetAlbumThrows
  | CreateAlbumThrows
  | CreateAlbumNull
  | AddAssetsThrows

subsection \<open>Photo review screen (lines 66-205)\<close>

record session =
  photos :: "asset list"
  currentIndex :: int
  loading :: bool
  imageLoading :: bool

text \<open>The \<open>useState\<close> initial values of lines 67-70.\<close>

definition initial_session :: session where
  "initial_session =
     \<lparr>photos = [], currentIndex = 0, loading = True, imageLoading = True\<rparr>"

text \<open>
  The effect of lines 73-85: the assets returned by \<open>getAssetsAsync\<close> are reversed and
  stored, and the loading flag is cleared. A rejected query leaves the state as it is.
\<close>

definition loadPhotos :: "lib_error + asset list \<Rightarrow> session \<Rightarrow> session" where
  "loadPhotos response s =
     (case response of
        Inl e \<Rightarrow> s
      | Inr assets \<Rightarrow> s\<lparr>photos := rev assets, loading := False\<rparr>)"

text \<open>
  \<open>photos[currentIndex]\<close>: a JavaScript array read outside the array yields
  \<open>undefined\<close>, here \<open>None\<close>.
\<close>

definition photo_at :: "asset list \<Rightarrow> int \<Rightarrow> asset option" where
  "photo_at ps i = (if 0 \<le> i \<and> i < int (length ps) then Some (ps ! nat i) else None)"

text \<open>Lines 87-92.\<close>

definition moveToNextPhoto :: "session \<Rightarrow> session" where
  "moveToNextPhoto s =
     (if currentIndex s < int (length (photos s)) - 1
      then s\<lparr>currentIndex := currentIndex s + 1, imageLoading := True\<rparr>
      else s)"

datatype direction = SwipeRight | SwipeUp | SwipeDown | SwipeLeft

text \<open>
  The \<open>switch\<close> of lines 98-111: the target album of a direction; \<open>left\<close> has none
  (it advances and returns).
\<close>

fun targetAlbum :: "direction \<Rightarrow> string option" where
  "targetAlbum SwipeRight = Some ''likedPhotos''"
| "targetAlbum SwipeUp = Some ''superlikedPhotos''"
| "targetAlbum SwipeDown = Some ''toDelete''"
| "targetAlbum SwipeLeft = None"

text \<open>
  The \<open>try\<close>/\<open>catch\<close> block of lines 118-136 for target album \<open>t\<close> and photo \<open>p\<close>:
  the library afterwards and the effects in order. Every failure ends in the
  \<open>console.error\<close> of the \<open>catch\<close> clause.
\<close>

definition managePhoto ::
  "fault \<Rightarrow> string \<Rightarrow> asset \<Rightarrow> media_library \<Rightarrow> media_library \<times> effect list" where
  "managePhoto f t p lib =
     (if f = GetAlbumThrows
      then (lib, [Call (GetAlbumAsync t), ConsoleError ErrorManagingPhoto])
      else
        (case lib t of
           None \<Rightarrow>
             (if f = CreateAlbumThrows \<or> f = CreateAlbumNull
              then (lib, [Call (GetAlbumAsync t), ConsoleLog (AlbumNotFoundCreating t),
                          Call (CreateAlbumAsync t p False),
                          ConsoleError ErrorManagingPhoto])
              else (lib(t \<mapsto> [p]),
                         [Call (GetAlbumAsync t), ConsoleLog (AlbumNotFoundCreating t),
                          Call (CreateAlbumAsync t p False),
                          ConsoleLog (AlbumCreatedPhotoAdded t)]))
         | Some ps \<Rightarrow>
             (if f = AddAssetsThrows
              then (lib, [Call (GetAlbumAsync t),
                          Call (AddAssetsToAlbumAsync [p] t False),
                          ConsoleError ErrorManagingPhoto])
              else (lib(t \<mapsto> ps @ [p]),
                         [Call (GetAlbumAsync t),
                          Call (AddAssetsToAlbumAsync [p] t False),
                          ConsoleLog (PhotoAddedToExisting t)]))))"

text \<open>
  Lines 94-139, one invocation followed from its first line to its last: the session,
  the library and the effects when the handler has returned.
\<close>

definition handleSwipe ::
  "fault \<Rightarrow> direction \<Rightarrow> session \<Rightarrow> media_library
     \<Rightarrow> session \<times> media_library \<times> effect list" where
  "handleSwipe f d s lib =
     (let currentPhoto = photo_at (photos s) (currentIndex s) in
      case targetAlbum d of
        None \<Rightarrow> (moveToNextPhoto s, lib, [])
      | Some t \<Rightarrow>
          (case currentPhoto of
             None \<Rightarrow> (s, lib, [ConsoleError NoPhotoAvailable])
           | Some p \<Rightarrow>
               (let (lib', effs) = managePhoto f t p lib
                in (moveToNextPhoto s, lib', effs))))"

definition threshold :: real where
  "threshold = 50"

text \<open>The \<open>onEnd\<close> callback of the pan gesture, lines 141-159.\<close>

definition onEnd ::
  "fault \<Rightarrow> real \<Rightarrow> real \<Rightarrow> session \<Rightarrow> media_library
     \<Rightarrow> session \<times> media_library \<times> effect list" where
  "onEnd f translationX translationY s lib =
     (if \<bar>translationX\<bar> > \<bar>translationY\<bar>
      then (if translationX > threshold then handleSwipe f SwipeRight s lib
            else if translationX < - threshold then handleSwipe f SwipeLeft s lib
            else (s, lib, []))
      else (if translationY > threshold then handleSwipe f SwipeDown s lib
            else if translationY < - threshold then handleSwipe f SwipeUp s lib
            else (s, lib, [])))"

text \<open>What the component returns, lines 161-204.\<close>

datatype photo_view =
    LoadingPhotos
  | NoPhotosFound
  | PhotoView string bool int nat
  | RenderFailure

text \<open>
  \<open>PhotoView u l k n\<close> is the image with source \<open>u\<close>, the per-image loading overlay shown
  iff \<open>l\<close>, under the caption "Photo k of n". Reading \<open>.uri\<close> of an undefined photo throws
  while rendering: \<open>RenderFailure\<close>.
\<close>

definition render :: "session \<Rightarrow> photo_view" where
  "render s =
     (if loading s then LoadingPhotos
      else if length (photos s) = 0 then NoPhotosFound
      else (case photo_at (photos s) (currentIndex s) of
              None \<Rightarrow> RenderFailure
            | Some p \<Rightarrow>
                PhotoView (uri p) (imageLoading s) (currentIndex s + 1) (length (photos s))))"

subsection \<open>The review screen with overlapping handlers\<close>

text \<open>
  \<open>handleSwipe\<close> is an \<open>async\<close> function: it runs up to its first \<open>await\<close> (line 119) when
  the gesture ends, and the rest runs when the awaited promise settles, possibly after
  other gestures have been handled. What a settled promise of the media library does to
  the handler: it rejects, it resolves to a null (falsy) value, or it resolves to a value.
\<close>

datatype answer = Throws | ResolvesNull | Resolves

text \<open>
  A handler waiting at an \<open>await\<close>: at the lookup (line 119), at the creation (line 124)
  or at the addition (line 131). It holds the state of the render it was created in
  (whose \<open>photos\<close> and \<open>currentIndex\<close> its \<open>moveToNextPhoto\<close> reads), its target album
  and its \<open>currentPhoto\<close>.
\<close>

datatype suspended =
    AtGetAlbum session string asset
  | AtCreateAlbum session string asset
  | AtAddAssets session string asset

record review =
  shown :: session
  trace :: "effect list"
  waiting :: "suspended list"

text \<open>
  \<open>moveToNextPhoto\<close> (lines 87-92) as created in the render with state \<open>c\<close>, called when the
  state is \<open>s\<close>: the guard and the new index are computed from \<open>c\<close>, the setters act on
  \<open>s\<close>. Called in its own render it is \<open>moveToNextPhoto\<close>.
\<close>

definition moveToNextPhoto_of :: "session \<Rightarrow> session \<Rightarrow> session" where
  "moveToNextPhoto_of c s =
     (if currentIndex c < int (length (photos c)) - 1
      then s\<lparr>currentIndex := currentIndex c + 1, imageLoading := True\<rparr>
      else s)"

text \<open>
  Lines 94-119: the handler from its call to its first \<open>await\<close>. A left swipe ends
  here; a swipe without a current photo ends here with the console error; any other
  swipe issues the lookup and waits.
\<close>

definition handleSwipe_start :: "direction \<Rightarrow> review \<Rightarrow> review" where
  "handleSwipe_start d r =
     (let c = shown r; currentPhoto = photo_at (photos c) (currentIndex c) in
      case targetAlbum d of
        None \<Rightarrow> r\<lparr>shown := moveToNextPhoto_of c (shown r)\<rparr>
      | Some t \<Rightarrow>
          (case currentPhoto of
             None \<Rightarrow> r\<lparr>trace := trace r @ [ConsoleError NoPhotoAvailable]\<rparr>
           | Some p \<Rightarrow>
               r\<lparr>trace := trace r @ [Call (GetAlbumAsync t)],
                 waiting := waiting r @ [AtGetAlbum c t p]\<rparr>))"

text \<open>
  The end of the handler, lines 128-138: the \<open>k\<close>-th waiting handler, created in render
  \<open>c\<close>, writes its last console line (the success message or the error of the \<open>catch\<close>
  clause), calls its \<open>moveToNextPhoto\<close> and is gone.
\<close>

definition handleSwipe_end :: "session \<Rightarrow> effect \<Rightarrow> nat \<Rightarrow> review \<Rightarrow> review" where
  "handleSwipe_end c line k r =
     r\<lparr>shown := moveToNextPhoto_of c (shown r),
       trace := trace r @ [line],
       waiting := take k (waiting r) @ drop (Suc k) (waiting r)\<rparr>"

text \<open>
  Lines 119-138: the promise awaited by the \<open>k\<close>-th waiting handler settles with answer
  \<open>a\<close>. After the lookup the handler issues the creation (album null) or the addition and
  waits again; a rejection, or a null album from the creation (line 125), goes through the
  \<open>catch\<close> clause to the end of the handler. The value the addition resolves to is not
  read. There is nothing to resume when fewer than \<open>k + 1\<close> handlers wait.
\<close>

definition handleSwipe_resume :: "nat \<Rightarrow> answer \<Rightarrow> review \<Rightarrow> review" where
  "handleSwipe_resume k a r =
     (if k < length (waiting r)
      then
        (case waiting r ! k of
           AtGetAlbum c t p \<Rightarrow>
             (case a of
                Throws \<Rightarrow> handleSwipe_end c (ConsoleError ErrorManagingPhoto) k r
              | ResolvesNull \<Rightarrow>
                  r\<lparr>trace := trace r @ [ConsoleLog (AlbumNotFoundCreating t),
                                         Call (CreateAlbumAsync t p False)],
                    waiting := (waiting r)[k := AtCreateAlbum c t p]\<rparr>
              | Resolves \<Rightarrow>
                  r\<lparr>trace := trace r @ [Call (AddAssetsToAlbumAsync [p] t False)],
                    waiting := (waiting r)[k := AtAddAssets c t p]\<rparr>)
         | AtCreateAlbum c t p \<Rightarrow>
             (case a of
                Throws \<Rightarrow> handleSwipe_end c (ConsoleError ErrorManagingPhoto) k r
              | ResolvesNull \<Rightarrow> handleSwipe_end c (ConsoleError ErrorManagingPhoto) k r
              | Resolves \<Rightarrow> handleSwipe_end c (ConsoleLog (AlbumCreatedPhotoAdded t)) k r)
         | AtAddAssets c t p \<Rightarrow>
             (case a of
                Throws \<Rightarrow> handleSwipe_end c (ConsoleError ErrorManagingPhoto) k r
              | ResolvesNull \<Rightarrow> handleSwipe_end c (ConsoleLog (PhotoAddedToExisting t)) k r
              | Resolves \<Rightarrow> handleSwipe_end c (ConsoleLog (PhotoAddedToExisting t)) k r))
      else r)"

text \<open>
  The \<open>onEnd\<close> callback of lines 141-159 again, now calling the handler without waiting
  for it, as the source does (the promise \<open>handleSwipe\<close> returns is dropped).
\<close>

definition onEnd_start :: "real \<Rightarrow> real \<Rightarrow> review \<Rightarrow> review" where
  "onEnd_start translationX translationY r =
     (if \<bar>translationX\<bar> > \<bar>translationY\<bar>
      then (if translationX > threshold then handleSwipe_start SwipeRight r
            else if translationX < - threshold then handleSwipe_start SwipeLeft r
            else r)
      else (if translationY > threshold then handleSwipe_start SwipeDown r
            else if translationY < - threshold then handleSwipe_start SwipeUp r
            else r))"

text \<open>
  The events of a mounted review screen: the release of a pan gesture, the settling of
  the promise a waiting handler awaits, and the \<open>onLoad\<close> of the image (line 192). The
  gesture detector and the image exist only in the photo view, so a release and an image
  load are ignored while the loading view or the empty view is shown. A release is
  handled by the callback of the render on screen, that is with the state \<open>shown\<close>; a
  settlement resumes a handler with the state it was created in, however many renders
  have passed.
\<close>

datatype event =
    PanEnd real real
  | Settled nat answer
  | ImageLoad

definition photo_view_shown :: "session \<Rightarrow> bool" where
  "photo_view_shown s = (\<not> loading s \<and> length (photos s) \<noteq> 0)"

fun step :: "review \<Rightarrow> event \<Rightarrow> review" where
  "step r (PanEnd tx ty) = (if photo_view_shown (shown r) then onEnd_start tx ty r else r)"
| "step r (Settled k a) = handleSwipe_resume k a r"
| "step r ImageLoad =
     (if photo_view_shown (shown r)
      then r\<lparr>shown := (shown r)\<lparr>imageLoading := False\<rparr>\<rparr>
      else r)"

text \<open>
  The mount effect of lines 73-85 for album \<open>albumId\<close>, the asset query answered by
  \<open>response\<close>: the query is issued; when it resolves the reversed assets are stored,
  \<open>console.log(photos)\<close> prints the (still empty) sequence of the first render and the
  loading flag is cleared. No gesture can end before that, since the photo view is not
  shown.
\<close>

definition mount :: "string \<Rightarrow> lib_error + asset list \<Rightarrow> review" where
  "mount albumId response =
     \<lparr>shown = loadPhotos response initial_session,
      trace = Call (GetPhotoAssetsAsync albumId 1000)
                # (case response of
                     Inl e \<Rightarrow> []
                   | Inr assets \<Rightarrow> [ConsoleLog (PhotosLogged (photos initial_session))]),
      waiting = []\<rparr>"

text \<open>
  A review session: the screen mounts for album \<open>albumId\<close>, the asset query is answered
  by \<open>response\<close>, then the events \<open>evs\<close> arrive in order, releases and settlements
  interleaved in any way.
\<close>

definition run :: "string \<Rightarrow> lib_error + asset list \<Rightarrow> event list \<Rightarrow> review" where
  "run albumId response evs = foldl step (mount albumId response) evs"

text \<open>
  The answers with which the media library of \<open>handleSwipe\<close> (albums \<open>lib\<close>, fault \<open>f\<close>)
  settles the awaits of one classification into album \<open>t\<close>, in order.
\<close>

definition answers_of :: "fault \<Rightarrow> media_library \<Rightarrow> string \<Rightarrow> answer list" where
  "answers_of f lib t =
     (if f = GetAlbumThrows then [Throws]
      else (case lib t of
              None \<Rightarrow>
                [ResolvesNull,
                 if f = CreateAlbumThrows then Throws
                 else if f = CreateAlbumNull then ResolvesNull else Resolves]
            | Some ps \<Rightarrow> [Resolves, if f = AddAssetsThrows then Throws else Resolves]))"

text \<open>
  What the proofs about sessions carry along. \<open>in_range ps c\<close>: the render state \<open>c\<close> has
  the photo sequence \<open>ps\<close> and an index inside it. \<open>session_inv ps r\<close>: the photo view is
  shown for \<open>ps\<close> with an index inside it, every waiting handler was created in such a
  render, and no handler has found its current photo missing.
\<close>

fun closure_of :: "suspended \<Rightarrow> session" where
  "closure_of (AtGetAlbum c t p) = c"
| "closure_of (AtCreateAlbum c t p) = c"
| "closure_of (AtAddAssets c t p) = c"

definition in_range :: "asset list \<Rightarrow> session \<Rightarrow> bool" where
  "in_range ps c =
     (photos c = ps \<and> 0 \<le> currentIndex c \<and> currentIndex c < int (length ps))"

definition session_inv :: "asset list \<Rightarrow> review \<Rightarrow> bool" where
  "session_inv ps r =
     (in_range ps (shown r) \<and> \<not> loading (shown r)
      \<and> list_all (\<lambda>h. in_range ps (closure_of h)) (waiting r)
      \<and> ConsoleError NoPhotoAvailable \<notin> set (trace r))"

subsection \<open>Album list screen (lines 10-64)\<close>

record album_screen =
  albums :: "albumWithCount list"
  albums_loading :: bool

text \<open>The \<open>useState\<close> initial values of lines 11-12.\<close>

definition initial_album_screen :: album_screen where
  "initial_album_screen = \<lparr>albums = [], albums_loading = True\<rparr>"

text \<open>
  What the media library answers during the mount effect: the permission status, the
  albums, and for each album identifier the \<open>totalCount\<close> of its asset query. Each answer
  may instead be a rejection.
\<close>

record library_answers =
  permission :: "lib_error + string"
  all_albums :: "lib_error + album list"
  total_count :: "string \<Rightarrow> lib_error + int"

text \<open>
  \<open>Promise.all\<close> over already started promises: the list of their values, or a rejection
  when one of them rejects.
\<close>

fun promise_all :: "(lib_error + 'a) list \<Rightarrow> lib_error + 'a list" where
  "promise_all [] = Inr []"
| "promise_all (r # rs) =
     (case r of
        Inl e \<Rightarrow> Inl e
      | Inr v \<Rightarrow> (case promise_all rs of Inl e \<Rightarrow> Inl e | Inr vs \<Rightarrow> Inr (v # vs)))"

text \<open>The body of the callback mapped over the albums, lines 25-28.\<close>

definition withCount :: "library_answers \<Rightarrow> album \<Rightarrow> lib_error + albumWithCount" where
  "withCount env a =
     (case total_count env (album_id a) of
        Inl e \<Rightarrow> Inl e
      | Inr n \<Rightarrow> Inr \<lparr>awc_id = album_id a, awc_title = title a, assetCount = n\<rparr>)"

text \<open>The comparator of line 30.\<close>

definition byCountDesc :: "albumWithCount \<Rightarrow> albumWithCount \<Rightarrow> int" where
  "byCountDesc a b = assetCount b - assetCount a"

text \<open>
  \<open>Array.prototype.sort\<close> with a comparator. ECMAScript requires the sort to be stable and,
  for a consistent comparator, to order the elements by it; the result is then the one
  computed by a stable insertion sort: an element goes before the first element that the
  comparator does not put in front of it.
\<close>

fun insert_by :: "('a \<Rightarrow> 'a \<Rightarrow> int) \<Rightarrow> 'a \<Rightarrow> 'a list \<Rightarrow> 'a list" where
  "insert_by cmp x [] = [x]"
| "insert_by cmp x (y # ys) =
     (if cmp x y \<le> 0 then x # y # ys else y # insert_by cmp x ys)"

definition array_sort :: "('a \<Rightarrow> 'a \<Rightarrow> int) \<Rightarrow> 'a list \<Rightarrow> 'a list" where
  "array_sort cmp xs = foldr (insert_by cmp) xs []"

text \<open>
  The mount effect of lines 14-34: the screen state afterwards and the effects in order.
  The asset queries of all albums are started before any of them is awaited. A rejection
  of any awaited promise ends the effect with the state as it was.
\<close>

definition loadAlbums :: "library_answers \<Rightarrow> album_screen \<Rightarrow> album_screen \<times> effect list" where
  "loadAlbums env st =
     (case permission env of
        Inl e \<Rightarrow> (st, [Call RequestPermissionsAsync])
      | Inr status \<Rightarrow>
          (if status \<noteq> ''granted''
           then (st\<lparr>albums_loading := False\<rparr>,
                 [Call RequestPermissionsAsync, ConsoleLog PermissionDenied])
           else
             (case all_albums env of
                Inl e \<Rightarrow> (st, [Call RequestPermissionsAsync, Call GetAlbumsAsync])
              | Inr as \<Rightarrow>
                  (let calls = [Call RequestPermissionsAsync, Call GetAlbumsAsync]
                               @ map (\<lambda>a. Call (GetAssetsAsync (album_id a))) as
                   in case promise_all (map (withCount env) as) of
                        Inl e \<Rightarrow> (st, calls)
                      | Inr albumsWithCount \<Rightarrow>
                          (st\<lparr>albums := array_sort byCountDesc albumsWithCount,
                              albums_loading := False\<rparr>, calls)))))"

text \<open>What the album list component returns, lines 46-63.\<close>

datatype album_view =
    LoadingAlbums
  | AlbumList "(string \<times> int) list"

text \<open>\<open>AlbumList\<close> carries, per row, the title and the count that \<open>renderAlbumItem\<close> shows.\<close>

definition render_albums :: "album_screen \<Rightarrow> album_view" where
  "render_albums st =
     (if albums_loading st then LoadingAlbums
      else AlbumList (map (\<lambda>item. (awc_title item, assetCount item)) (albums st)))"

subsection \<open>Reading a trace\<close>

text \<open>The media-library calls of a trace, in order, without the console output.\<close>

fun calls_of :: "effect list \<Rightarrow> lib_call list" where
  "calls_of [] = []"
| "calls_of (Call c # es) = c # calls_of es"
| "calls_of (ConsoleLog m # es) = calls_of es"
| "calls_of (ConsoleError m # es) = calls_of es"

text \<open>
  The calls a classification of photo \<open>p\<close> into album \<open>t\<close> is expected to make: the lookup,
  then (when the lookup returns) the creation seeded with \<open>p\<close> if the album is absent, or
  the addition of \<open>p\<close> if it is present.
\<close>

definition create_or_add :: "fault \<Rightarrow> media_library \<Rightarrow> string \<Rightarrow> asset \<Rightarrow> lib_call list" where
  "create_or_add f lib t p =
     (if f = GetAlbumThrows then [GetAlbumAsync t]
      else (case lib t of
              None \<Rightarrow> [GetAlbumAsync t, CreateAlbumAsync t p False]
            | Some ps \<Rightarrow> [GetAlbumAsync t, AddAssetsToAlbumAsync [p] t False]))"

subsection \<open>The gesture dispatch as the specification words it\<close>

datatype axis = Horizontal | Vertical

text \<open>
  The axis with the larger absolute displacement; the specification is silent on equal
  displacements, which are given to the vertical axis here.
\<close>

definition dominant_axis :: "real \<Rightarrow> real \<Rightarrow> axis" where
  "dominant_axis dx dy = (if \<bar>dx\<bar> > \<bar>dy\<bar> then Horizontal else Vertical)"

text \<open>
  The direction of a release: none unless the displacement on the dominant axis exceeds
  the threshold, else the one its sign selects (screen coordinates: positive y is down).
\<close>

definition spec_direction :: "real \<Rightarrow> real \<Rightarrow> direction option" where
  "spec_direction dx dy =
     (case dominant_axis dx dy of
        Horizontal \<Rightarrow>
          (if \<bar>dx\<bar> > threshold then Some (if dx > 0 then SwipeRight else SwipeLeft) else None)
      | Vertical \<Rightarrow>
          (if \<bar>dy\<bar> > threshold then Some (if dy > 0 then SwipeDown else SwipeUp) else None))"

subsection \<open>Example data\<close>

definition photo_a :: asset where
  "photo_a = \<lparr>asset_id = ''a'', uri = ''file:///a.jpg''\<rparr>"

definition photo_b :: asset where
  "photo_b = \<lparr>asset_id = ''b'', uri = ''file:///b.jpg''\<rparr>"

definition photo_c :: asset where
  "photo_c = \<lparr>asset_id = ''c'', uri = ''file:///c.jpg''\<rparr>"

text \<open>A loaded session that shows photo \<open>i\<close> of \<open>ps\<close>, its image already displayed.\<close>

definition reviewing :: "asset list \<Rightarrow> int \<Rightarrow> session" where
  "reviewing ps i = \<lparr>photos = ps, currentIndex = i, loading = False, imageLoading = False\<rparr>"

definition three_albums :: library_answers where
  "three_albums =
     \<lparr>permission = Inr ''granted'',
      all_albums = Inr [\<lparr>album_id = ''1'', title = ''Camera''\<rparr>,
                        \<lparr>album_id = ''2'', title = ''Screenshots''\<rparr>,
                        \<lparr>album_id = ''3'', title = ''Downloads''\<rparr>],
      total_count = (\<lambda>i. if i = ''1'' then Inr 3 else if i = ''2'' then Inr 7 else Inr 3)\<rparr>"

definition permission_refused :: library_answers where
  "permission_refused =
     \<lparr>permission = Inr ''denied'', all_albums = Inr [], total_count = (\<lambda>i. Inr 0)\<rparr>"

section \<open>Properties of the review screen\<close>

subsection \<open>Advancing\<close>

lemma moveToNextPhoto_index:
  "currentIndex (moveToNextPhoto s) =
     (if currentIndex s < int (length (photos s)) - 1 then currentIndex s + 1 else currentIndex s)"
  by (simp add: moveToNextPhoto_def)

lemma moveToNextPhoto_frame:
  "photos (moveToNextPhoto s) = photos s \<and> loading (moveToNextPhoto s) = loading s"
  by (simp add: moveToNextPhoto_def)

lemma moveToNextPhoto_last:
  "currentIndex s = int (length (photos s)) - 1 \<Longrightarrow> moveToNextPhoto s = s"
  by (simp add: moveToNextPhoto_def)

subsection \<open>Classification\<close>

lemma calls_managePhoto: "calls_of (snd (managePhoto f t p lib)) = create_or_add f lib t p"
  by (simp add: managePhoto_def create_or_add_def split: option.split)

lemma managePhoto_NoFault:
  "fst (managePhoto NoFault t p lib) =
     lib(t \<mapsto> (case lib t of None \<Rightarrow> [p] | Some ps \<Rightarrow> ps @ [p]))"
  by (simp add: managePhoto_def split: option.split)

lemma managePhoto_no_missing: "ConsoleError NoPhotoAvailable \<notin> set (snd (managePhoto f t p lib))"
  by (simp add: managePhoto_def split: option.split)

lemma handleSwipe_left: "handleSwipe f SwipeLeft s lib = (moveToNextPhoto s, lib, [])"
  by (simp add: handleSwipe_def)

lemma handleSwipe_target:
  assumes "targetAlbum d = Some t"
    and "0 \<le> currentIndex s" and "currentIndex s < int (length (photos s))"
  shows "handleSwipe f d s lib =
           (moveToNextPhoto s, managePhoto f t (photos s ! nat (currentIndex s)) lib)"
  using assms by (simp add: handleSwipe_def photo_at_def split: prod.split)

lemma handleSwipe_index_in_range:
  assumes "0 \<le> currentIndex s" and "currentIndex s < int (length (photos s))"
  shows "fst (handleSwipe f d s lib) = moveToNextPhoto s"
proof (cases "targetAlbum d")
  case None
  then show ?thesis by (simp add: handleSwipe_def)
next
  case (Some t)
  from handleSwipe_target[OF Some assms] show ?thesis by simp
qed

lemma handleSwipe_no_missing:
  assumes "0 \<le> currentIndex s" and "currentIndex s < int (length (photos s))"
  shows "ConsoleError NoPhotoAvailable \<notin> set (snd (snd (handleSwipe f d s lib)))"
proof (cases "targetAlbum d")
  case None
  then show ?thesis by (simp add: handleSwipe_def)
next
  case (Some t)
  from handleSwipe_target[OF Some assms] managePhoto_no_missing show ?thesis by simp
qed

subsection \<open>The gesture\<close>

lemma onEnd_right:
  "\<bar>ty\<bar> < \<bar>tx\<bar> \<Longrightarrow> threshold < tx \<Longrightarrow> onEnd f tx ty s lib = handleSwipe f SwipeRight s lib"
  by (simp add: onEnd_def)

lemma onEnd_left:
  "\<bar>ty\<bar> < \<bar>tx\<bar> \<Longrightarrow> tx < - threshold \<Longrightarrow> onEnd f tx ty s lib = handleSwipe f SwipeLeft s lib"
  by (simp add: onEnd_def threshold_def)

lemma onEnd_cases:
  "onEnd f tx ty s lib = (s, lib, []) \<or> (\<exists>d. onEnd f tx ty s lib = handleSwipe f d s lib)"
  by (auto simp: onEnd_def)

lemma onEnd_above:
  "threshold < \<bar>tx\<bar> \<or> threshold < \<bar>ty\<bar> \<Longrightarrow> \<exists>d. onEnd f tx ty s lib = handleSwipe f d s lib"
  by (auto simp: onEnd_def threshold_def)

lemma onEnd_spec_direction:
  "onEnd f tx ty s lib =
     (case spec_direction tx ty of None \<Rightarrow> (s, lib, []) | Some d \<Rightarrow> handleSwipe f d s lib)"
  by (auto simp: onEnd_def spec_direction_def dominant_axis_def threshold_def)

lemma onEnd_session:
  "fst (onEnd f tx ty s lib) = s \<or> fst (onEnd f tx ty s lib) = moveToNextPhoto s"
  by (auto simp: onEnd_def handleSwipe_def split: option.split prod.split)

lemma onEnd_no_missing:
  assumes "0 \<le> currentIndex s" and "currentIndex s < int (length (photos s))"
  shows "ConsoleError NoPhotoAvailable \<notin> set (snd (snd (onEnd f tx ty s lib)))"
  using onEnd_cases[of f tx ty s lib] handleSwipe_no_missing[OF assms] by auto

section \<open>Properties of sessions with overlapping handlers\<close>

subsection \<open>The session invariant\<close>

lemma moveToNextPhoto_of_self: "moveToNextPhoto_of s s = moveToNextPhoto s"
  by (simp add: moveToNextPhoto_of_def moveToNextPhoto_def)

lemma moveToNextPhoto_of_in_range:
  assumes "in_range ps c" and "in_range ps s"
  shows "in_range ps (moveToNextPhoto_of c s)"
  using assms by (simp add: moveToNextPhoto_of_def in_range_def)

lemma moveToNextPhoto_of_loading: "loading (moveToNextPhoto_of c s) = loading s"
  by (simp add: moveToNextPhoto_of_def)

lemma handleSwipe_start_inv:
  assumes "session_inv ps r"
  shows "session_inv ps (handleSwipe_start d r)"
proof -
  have s: "in_range ps (shown r)" using assms by (simp add: session_inv_def)
  then have "photo_at (photos (shown r)) (currentIndex (shown r)) \<noteq> None"
    by (simp add: photo_at_def in_range_def)
  then obtain p where p: "photo_at (photos (shown r)) (currentIndex (shown r)) = Some p"
    by blast
  show ?thesis
  proof (cases "targetAlbum d")
    case None
    then show ?thesis
      using assms moveToNextPhoto_of_in_range[OF s s]
      by (simp add: handleSwipe_start_def session_inv_def moveToNextPhoto_of_loading)
  next
    case (Some t)
    then show ?thesis
      using assms p by (simp add: handleSwipe_start_def session_inv_def)
  qed
qed

lemma onEnd_start_cases:
  "onEnd_start tx ty r = r \<or> (\<exists>d. onEnd_start tx ty r = handleSwipe_start d r)"
  by (auto simp: onEnd_start_def)

lemma onEnd_start_inv: "session_inv ps r \<Longrightarrow> session_inv ps (onEnd_start tx ty r)"
  using onEnd_start_cases[of tx ty r] handleSwipe_start_inv[of ps r] by auto

lemma list_all_remove: "list_all P xs \<Longrightarrow> list_all P (take k xs @ drop (Suc k) xs)"
  by (auto simp: list_all_iff dest: in_set_takeD in_set_dropD)

lemma list_all_update: "list_all P xs \<Longrightarrow> P x \<Longrightarrow> list_all P (xs[k := x])"
  by (auto simp: list_all_iff dest: set_update_subset_insert[THEN subsetD])

lemma handleSwipe_end_inv:
  assumes "session_inv ps r" and "in_range ps c" and "line \<noteq> ConsoleError NoPhotoAvailable"
  shows "session_inv ps (handleSwipe_end c line k r)"
proof -
  have s: "in_range ps (shown r)" using assms(1) by (simp add: session_inv_def)
  have w: "list_all (\<lambda>h. in_range ps (closure_of h)) (waiting r)"
    using assms(1) by (simp add: session_inv_def)
  show ?thesis
    using assms moveToNextPhoto_of_in_range[OF assms(2) s] list_all_remove[OF w, of k]
    by (simp add: handleSwipe_end_def session_inv_def moveToNextPhoto_of_loading)
qed

lemma handleSwipe_resume_inv:
  assumes "session_inv ps r"
  shows "session_inv ps (handleSwipe_resume k a r)"
proof (cases "k < length (waiting r)")
  case False
  then show ?thesis using assms by (simp add: handleSwipe_resume_def)
next
  case True
  have w: "list_all (\<lambda>h. in_range ps (closure_of h)) (waiting r)"
    using assms by (simp add: session_inv_def)
  then have c: "in_range ps (closure_of (waiting r ! k))"
    using True by (simp add: list_all_length)
  show ?thesis
  proof (cases "waiting r ! k")
    case (AtGetAlbum c t p)
    then have ic: "in_range ps c" using c by simp
    show ?thesis
    proof (cases a)
      case Throws
      then show ?thesis
        using True AtGetAlbum handleSwipe_end_inv[OF assms ic]
        by (simp add: handleSwipe_resume_def)
    next
      case ResolvesNull
      then show ?thesis
        using True AtGetAlbum assms ic list_all_update[OF w, of "AtCreateAlbum c t p" k]
        by (simp add: handleSwipe_resume_def session_inv_def)
    next
      case Resolves
      then show ?thesis
        using True AtGetAlbum assms ic list_all_update[OF w, of "AtAddAssets c t p" k]
        by (simp add: handleSwipe_resume_def session_inv_def)
    qed
  next
    case (AtCreateAlbum c t p)
    then have ic: "in_range ps c" using c by simp
    show ?thesis
      using True AtCreateAlbum handleSwipe_end_inv[OF assms ic]
      by (cases a) (simp_all add: handleSwipe_resume_def)
  next
    case (AtAddAssets c t p)
    then have ic: "in_range ps c" using c by simp
    show ?thesis
      using True AtAddAssets handleSwipe_end_inv[OF assms ic]
      by (cases a) (simp_all add: handleSwipe_resume_def)
  qed
qed

lemma step_inv: "session_inv ps r \<Longrightarrow> session_inv ps (step r e)"
proof (cases e)
  case (PanEnd tx ty)
  assume "session_inv ps r"
  then show ?thesis using PanEnd onEnd_start_inv[of ps r tx ty] by simp
next
  case (Settled k a)
  assume "session_inv ps r"
  then show ?thesis using Settled handleSwipe_resume_inv[of ps r k a] by simp
next
  case ImageLoad
  assume "session_inv ps r"
  then show ?thesis using ImageLoad by (simp add: session_inv_def in_range_def)
qed

lemma step_idle:
  assumes "\<not> photo_view_shown (shown r)" and "waiting r = []"
  shows "step r e = r"
  using assms by (cases e) (simp_all add: handleSwipe_resume_def)

lemma foldl_step_idle:
  assumes "\<not> photo_view_shown (shown r)" and "waiting r = []"
  shows "foldl step r evs = r"
  using assms by (induction evs) (simp_all add: step_idle)

lemma foldl_step_inv: "session_inv ps r \<Longrightarrow> session_inv ps (foldl step r evs)"
  by (induction evs arbitrary: r) (simp_all add: step_inv)

lemma mount_inv: "assets \<noteq> [] \<Longrightarrow> session_inv (rev assets) (mount albumId (Inr assets))"
  by (simp add: mount_def session_inv_def in_range_def loadPhotos_def initial_session_def)

lemma run_inv: "assets \<noteq> [] \<Longrightarrow> session_inv (rev assets) (run albumId (Inr assets) evs)"
  unfolding run_def by (rule foldl_step_inv) (rule mount_inv)

lemma run_idle:
  assumes "response = Inl e \<or> response = Inr []"
  shows "run albumId response evs = mount albumId response"
  unfolding run_def
proof (rule foldl_step_idle)
  show "\<not> photo_view_shown (shown (mount albumId response))"
    using assms by (auto simp: mount_def loadPhotos_def initial_session_def photo_view_shown_def)
  show "waiting (mount albumId response) = []" by (simp add: mount_def)
qed

subsection \<open>A swipe that nothing interrupts\<close>

text \<open>
  When a swipe is started with no handler waiting and its awaits are settled before any
  other event, by the answers the library of \<open>handleSwipe\<close> gives, the session ends in
  the state and with the effects that \<open>onEnd\<close> computes in one piece.
\<close>

lemma handleSwipe_photo:
  assumes "targetAlbum d = Some t" and "photo_at (photos s) (currentIndex s) = Some p"
  shows "handleSwipe f d s lib = (moveToNextPhoto s, managePhoto f t p lib)"
  using assms by (simp add: handleSwipe_def split: prod.split)

lemma onEnd_start_spec_direction:
  "onEnd_start tx ty r =
     (case spec_direction tx ty of None \<Rightarrow> r | Some d \<Rightarrow> handleSwipe_start d r)"
  by (auto simp: onEnd_start_def spec_direction_def dominant_axis_def threshold_def)

lemma uninterrupted_classification:
  assumes "targetAlbum d = Some t" and "photo_at (photos s) (currentIndex s) = Some p"
  shows "foldl step (handleSwipe_start d \<lparr>shown = s, trace = tr, waiting = []\<rparr>)
           (map (Settled 0) (answers_of f lib t))
         = \<lparr>shown = fst (handleSwipe f d s lib),
            trace = tr @ snd (snd (handleSwipe f d s lib)), waiting = []\<rparr>"
  using assms
  by (cases "lib t")
     (auto simp: handleSwipe_photo handleSwipe_start_def answers_of_def managePhoto_def
        handleSwipe_resume_def handleSwipe_end_def moveToNextPhoto_of_self)

lemma uninterrupted_swipe:
  assumes "photo_view_shown s" and "photo_at (photos s) (currentIndex s) = Some p"
  shows "foldl step \<lparr>shown = s, trace = tr, waiting = []\<rparr>
           (PanEnd tx ty #
              (case spec_direction tx ty of
                 None \<Rightarrow> []
               | Some d \<Rightarrow> (case targetAlbum d of
                              None \<Rightarrow> []
                            | Some t \<Rightarrow> map (Settled 0) (answers_of f lib t))))
         = \<lparr>shown = fst (onEnd f tx ty s lib),
            trace = tr @ snd (snd (onEnd f tx ty s lib)), waiting = []\<rparr>"
proof (cases "spec_direction tx ty")
  case None
  then show ?thesis
    using assms(1) by (simp add: onEnd_spec_direction onEnd_start_spec_direction)
next
  case (Some d)
  show ?thesis
  proof (cases "targetAlbum d")
    case None
    then show ?thesis
      using assms(1) Some
      by (simp add: onEnd_spec_direction onEnd_start_spec_direction handleSwipe_def
          handleSwipe_start_def moveToNextPhoto_of_self)
  next
    case (Some t)
    from uninterrupted_classification[OF Some assms(2), of tr f lib]
    show ?thesis
      using assms(1) Some \<open>spec_direction tx ty = Some d\<close>
      by (simp add: onEnd_spec_direction onEnd_start_spec_direction)
  qed
qed

section \<open>Claims about the swipe handler\<close>

text \<open>
  C1 (as amended). In a session showing photo \<open>i\<close> (\<open>0 \<le> i < length\<close>), a release whose
  horizontal displacement dominates and exceeds the threshold to the right makes exactly
  the media-library calls of a classification into "likedPhotos": the lookup and, unless
  the lookup throws, the creation of the album seeded with the current photo if it is
  absent, or the addition of the current photo if it is present. When no call fails the
  library afterwards holds the photo in "likedPhotos". Whatever the library does, the
  photo sequence is unchanged and the index becomes \<open>i + 1\<close> if \<open>i < length - 1\<close> and
  stays \<open>i\<close> if \<open>i = length - 1\<close>.
\<close>

theorem right_swipe_likes_and_advances:
  assumes "0 \<le> currentIndex s" and "currentIndex s < int (length (photos s))"
    and "\<bar>ty\<bar> < \<bar>tx\<bar>" and "threshold < tx"
    and "onEnd f tx ty s lib = (s', lib', effs)"
  shows "calls_of effs = create_or_add f lib ''likedPhotos'' (photos s ! nat (currentIndex s))
       \<and> (f = NoFault \<longrightarrow>
            lib' = lib(''likedPhotos'' \<mapsto>
                     (case lib ''likedPhotos'' of
                        None \<Rightarrow> [photos s ! nat (currentIndex s)]
                      | Some ps \<Rightarrow> ps @ [photos s ! nat (currentIndex s)])))
       \<and> photos s' = photos s
       \<and> currentIndex s' =
           (if currentIndex s < int (length (photos s)) - 1
            then currentIndex s + 1 else currentIndex s)"
proof -
  let ?p = "photos s ! nat (currentIndex s)"
  have t: "targetAlbum SwipeRight = Some ''likedPhotos''" by simp
  have "onEnd f tx ty s lib = handleSwipe f SwipeRight s lib"
    using assms(3,4) by (rule onEnd_right)
  also have "\<dots> = (moveToNextPhoto s, managePhoto f ''likedPhotos'' ?p lib)"
    using t assms(1,2) by (rule handleSwipe_target)
  finally have r: "s' = moveToNextPhoto s" "managePhoto f ''likedPhotos'' ?p lib = (lib', effs)"
    using assms(5) by simp_all
  have c: "calls_of effs = create_or_add f lib ''likedPhotos'' ?p"
    using calls_managePhoto[of f "''likedPhotos''" ?p lib] r(2) by simp
  have l: "f = NoFault \<longrightarrow>
            lib' = lib(''likedPhotos'' \<mapsto>
                     (case lib ''likedPhotos'' of None \<Rightarrow> [?p] | Some ps \<Rightarrow> ps @ [?p]))"
    using managePhoto_NoFault[of "''likedPhotos''" ?p lib] r(2) by auto
  show ?thesis
    using c l r(1) moveToNextPhoto_index[of s] moveToNextPhoto_frame[of s] by simp
qed

text \<open>
  The theorem at the first of two photos, with "likedPhotos" absent and no failing call:
  the album is created seeded with the photo and the index moves from 0 to 1.
\<close>

theorem right_swipe_likes_and_advances_witness:
  "onEnd NoFault 60 10 (reviewing [photo_a, photo_b] 0) Map.empty
     = (\<lparr>photos = [photo_a, photo_b], currentIndex = 1, loading = False, imageLoading = True\<rparr>,
        [''likedPhotos'' \<mapsto> [photo_a]],
        [Call (GetAlbumAsync ''likedPhotos''),
         ConsoleLog (AlbumNotFoundCreating ''likedPhotos''),
         Call (CreateAlbumAsync ''likedPhotos'' photo_a False),
         ConsoleLog (AlbumCreatedPhotoAdded ''likedPhotos'')])
   \<and> create_or_add NoFault Map.empty ''likedPhotos'' photo_a
      = [GetAlbumAsync ''likedPhotos'', CreateAlbumAsync ''likedPhotos'' photo_a False]"
proof -
  let ?s = "reviewing [photo_a, photo_b] 0"
  let ?s' = "\<lparr>photos = [photo_a, photo_b], currentIndex = 1, loading = False,
              imageLoading = True\<rparr>"
  let ?effs = "[Call (GetAlbumAsync ''likedPhotos''),
         ConsoleLog (AlbumNotFoundCreating ''likedPhotos''),
         Call (CreateAlbumAsync ''likedPhotos'' photo_a False),
         ConsoleLog (AlbumCreatedPhotoAdded ''likedPhotos'')]"
  have h1: "0 \<le> currentIndex ?s" by (simp add: reviewing_def)
  have h2: "currentIndex ?s < int (length (photos ?s))" by (simp add: reviewing_def)
  have h3: "\<bar>10::real\<bar> < \<bar>60\<bar>" by simp
  have h4: "threshold < 60" by (simp add: threshold_def)
  have h5: "onEnd NoFault 60 10 ?s Map.empty = (?s', [''likedPhotos'' \<mapsto> [photo_a]], ?effs)"
    by (simp add: onEnd_def threshold_def handleSwipe_def photo_at_def managePhoto_def
        moveToNextPhoto_def reviewing_def)
  from right_swipe_likes_and_advances[OF h1 h2 h3 h4 h5] h5 show ?thesis
    by (simp add: reviewing_def)
qed

text \<open>
  C1 as stated fails on the last photo: with a single photo shown (\<open>i = 0\<close>), a rightward
  swipe of 60 units leaves the index at 0 instead of 1.
\<close>

theorem right_swipe_last_photo_counterexample:
  "photos (reviewing [photo_a] 0) \<noteq> []
   \<and> 0 \<le> currentIndex (reviewing [photo_a] 0)
   \<and> currentIndex (reviewing [photo_a] 0) < int (length (photos (reviewing [photo_a] 0)))
   \<and> \<bar>0::real\<bar> < \<bar>60\<bar> \<and> threshold < 60
   \<and> currentIndex (fst (onEnd NoFault 60 0 (reviewing [photo_a] 0) Map.empty))
        \<noteq> currentIndex (reviewing [photo_a] 0) + 1"
  by (simp add: onEnd_def threshold_def handleSwipe_def photo_at_def managePhoto_def
        moveToNextPhoto_def reviewing_def)

text \<open>
  C2 (as amended). In state Reviewing(\<open>i\<close>) with \<open>0 \<le> i < length\<close>, every release that
  exceeds the threshold on some axis is classified as a swipe, whatever its direction
  and whatever the library does, and it leaves the photo sequence alone; the index
  becomes \<open>i + 1\<close> if \<open>i < length - 1\<close> and stays \<open>i\<close> on the last photo.
\<close>

theorem swipe_advances_until_last:
  assumes "0 \<le> currentIndex s" and "currentIndex s < int (length (photos s))"
    and "threshold < \<bar>tx\<bar> \<or> threshold < \<bar>ty\<bar>"
  shows "spec_direction tx ty \<noteq> None
       \<and> currentIndex (fst (onEnd f tx ty s lib)) =
           (if currentIndex s < int (length (photos s)) - 1
            then currentIndex s + 1 else currentIndex s)
       \<and> photos (fst (onEnd f tx ty s lib)) = photos s
       \<and> loading (fst (onEnd f tx ty s lib)) = loading s"
proof -
  from onEnd_above[OF assms(3)] obtain d where "onEnd f tx ty s lib = handleSwipe f d s lib"
    by blast
  then have "fst (onEnd f tx ty s lib) = moveToNextPhoto s"
    using handleSwipe_index_in_range[OF assms(1,2)] by simp
  moreover have "spec_direction tx ty \<noteq> None"
    using assms(3) by (auto simp: spec_direction_def dominant_axis_def threshold_def)
  ultimately show ?thesis
    using moveToNextPhoto_index[of s] moveToNextPhoto_frame[of s] by simp
qed

text \<open>
  The theorem for an upward swipe on the first of two photos while the album lookup
  throws: the index moves from 0 to 1.
\<close>

theorem swipe_advances_until_last_witness:
  "spec_direction 0 (- 70) = Some SwipeUp
   \<and> currentIndex (fst (onEnd GetAlbumThrows 0 (- 70) (reviewing [photo_a, photo_b] 0) Map.empty))
       = 1"
proof -
  let ?s = "reviewing [photo_a, photo_b] 0"
  have h1: "0 \<le> currentIndex ?s" by (simp add: reviewing_def)
  have h2: "currentIndex ?s < int (length (photos ?s))" by (simp add: reviewing_def)
  have h3: "threshold < \<bar>0::real\<bar> \<or> threshold < \<bar>- 70::real\<bar>" by (simp add: threshold_def)
  have d: "spec_direction 0 (- 70) = Some SwipeUp"
    by (simp add: spec_direction_def dominant_axis_def threshold_def)
  from swipe_advances_until_last[OF h1 h2 h3, of GetAlbumThrows Map.empty] d show ?thesis
    by (simp add: reviewing_def)
qed

text \<open>
  C2 as stated fails at the last index: in Reviewing(1) of two photos a leftward swipe of
  80 units leaves the index at 1, not 2.
\<close>

theorem swipe_at_last_index_counterexample:
  "0 \<le> currentIndex (reviewing [photo_a, photo_b] 1)
   \<and> currentIndex (reviewing [photo_a, photo_b] 1)
       < int (length (photos (reviewing [photo_a, photo_b] 1)))
   \<and> threshold < \<bar>- 80\<bar>
   \<and> currentIndex (fst (onEnd NoFault (- 80) 10 (reviewing [photo_a, photo_b] 1) Map.empty))
       \<noteq> currentIndex (reviewing [photo_a, photo_b] 1) + 1"
  by (simp add: onEnd_def threshold_def handleSwipe_def moveToNextPhoto_def reviewing_def)

text \<open>
  C3 (as amended). In every session state, a release whose horizontal displacement
  dominates and exceeds the threshold to the left produces no effect at all (no album
  lookup, creation or addition, no console output), leaves the media library and the
  photo sequence unchanged, and moves the index to \<open>i + 1\<close> if \<open>i < length - 1\<close>;
  otherwise the index keeps its value.
\<close>

theorem left_swipe_skips_without_mutation:
  assumes "\<bar>ty\<bar> < \<bar>tx\<bar>" and "tx < - threshold"
    and "onEnd f tx ty s lib = (s', lib', effs)"
  shows "effs = [] \<and> lib' = lib \<and> photos s' = photos s
       \<and> currentIndex s' =
           (if currentIndex s < int (length (photos s)) - 1
            then currentIndex s + 1 else currentIndex s)"
proof -
  have "onEnd f tx ty s lib = (moveToNextPhoto s, lib, [])"
    using onEnd_left[OF assms(1,2)] handleSwipe_left by simp
  with assms(3) have "s' = moveToNextPhoto s" "lib' = lib" "effs = []" by simp_all
  then show ?thesis
    using moveToNextPhoto_index[of s] moveToNextPhoto_frame[of s] by simp
qed

text \<open>The theorem for a leftward swipe on the first of two photos.\<close>

theorem left_swipe_skips_without_mutation_witness:
  "onEnd AddAssetsThrows (- 51) 50 (reviewing [photo_b, photo_a] 0) [''toDelete'' \<mapsto> [photo_a]]
     = (\<lparr>photos = [photo_b, photo_a], currentIndex = 1, loading = False, imageLoading = True\<rparr>,
        [''toDelete'' \<mapsto> [photo_a]], [])"
proof -
  let ?s' = "\<lparr>photos = [photo_b, photo_a], currentIndex = 1, loading = False,
              imageLoading = True\<rparr>"
  have h1: "\<bar>50::real\<bar> < \<bar>- 51\<bar>" by simp
  have h2: "(- 51::real) < - threshold" by (simp add: threshold_def)
  have h3: "onEnd AddAssetsThrows (- 51) 50 (reviewing [photo_b, photo_a] 0)
              [''toDelete'' \<mapsto> [photo_a]]
            = (?s', [''toDelete'' \<mapsto> [photo_a]], [])"
    by (simp add: onEnd_def threshold_def handleSwipe_def moveToNextPhoto_def reviewing_def)
  from left_swipe_skips_without_mutation[OF h1 h2 h3] h3 show ?thesis by simp
qed

text \<open>
  C3 as stated fails on the last photo: with one photo shown, a leftward swipe of 120
  units leaves the index at 0.
\<close>

theorem left_swipe_last_photo_counterexample:
  "\<bar>5::real\<bar> < \<bar>- 120\<bar> \<and> - 120 < - threshold
   \<and> currentIndex (fst (onEnd NoFault (- 120) 5 (reviewing [photo_b] 0) Map.empty))
       \<noteq> currentIndex (reviewing [photo_b] 0) + 1"
  by (simp add: onEnd_def threshold_def handleSwipe_def moveToNextPhoto_def reviewing_def)

text \<open>
  C4. A release whose absolute horizontal and absolute vertical displacements are both
  below the threshold of 50 dispatches nothing: the session (and with it the index) and
  the media library are returned as they were, and the list of effects is empty, so no
  media-library call is made.
\<close>

theorem below_threshold_ignored:
  "\<bar>tx\<bar> < threshold \<Longrightarrow> \<bar>ty\<bar> < threshold \<Longrightarrow> onEnd f tx ty s lib = (s, lib, [])"
  by (auto simp: onEnd_def threshold_def)

theorem below_threshold_ignored_witness:
  "\<bar>49::real\<bar> < threshold \<and> \<bar>- 49::real\<bar> < threshold
   \<and> onEnd NoFault 49 (- 49) (reviewing [photo_a, photo_b] 0) Map.empty
       = (reviewing [photo_a, photo_b] 0, Map.empty, [])"
proof -
  have h1: "\<bar>49::real\<bar> < threshold" by (simp add: threshold_def)
  have h2: "\<bar>- 49::real\<bar> < threshold" by (simp add: threshold_def)
  from below_threshold_ignored[OF h1 h2, of NoFault "reviewing [photo_a, photo_b] 0" Map.empty]
    h1 h2 show ?thesis by simp
qed



text \<open>
  C8 (as amended). On the last photo of a non-empty sequence (\<open>i = length - 1\<close>), a
  release classified as a right, up or down swipe still makes the lookup of its target
  album. When the lookup throws, that is the only call and the library is unchanged.
  When it returns, the handler goes on to create the album seeded with that last photo
  (album absent) or to add that photo to it (album present), and when no call fails the
  library afterwards holds the photo in the album. In every case the session comes back
  exactly as it was, index \<open>length - 1\<close> included, so the same holds for every further
  such swipe: each one whose lookup returns submits the same photo again.
\<close>

theorem last_photo_resubmitted:
  assumes "photos s \<noteq> []" and "currentIndex s = int (length (photos s)) - 1"
    and "spec_direction tx ty = Some d"
    and "(d, t) \<in> {(SwipeRight, ''likedPhotos''), (SwipeUp, ''superlikedPhotos''),
                   (SwipeDown, ''toDelete'')}"
    and "onEnd f tx ty s lib = (s', lib', effs)"
  shows "s' = s
       \<and> (f = GetAlbumThrows \<longrightarrow> calls_of effs = [GetAlbumAsync t] \<and> lib' = lib)
       \<and> (f \<noteq> GetAlbumThrows \<and> lib t = None \<longrightarrow>
            calls_of effs = [GetAlbumAsync t, CreateAlbumAsync t (last (photos s)) False])
       \<and> (f \<noteq> GetAlbumThrows \<and> lib t \<noteq> None \<longrightarrow>
            calls_of effs = [GetAlbumAsync t, AddAssetsToAlbumAsync [last (photos s)] t False])
       \<and> (f = NoFault \<longrightarrow>
            lib' = lib(t \<mapsto> (case lib t of None \<Rightarrow> [last (photos s)]
                                | Some ps \<Rightarrow> ps @ [last (photos s)])))"
proof -
  have t: "targetAlbum d = Some t" using assms(4) by auto
  have i: "0 \<le> currentIndex s" "currentIndex s < int (length (photos s))"
    using assms(1,2) by (simp_all add: Suc_leI)
  have p: "photos s ! nat (currentIndex s) = last (photos s)"
    using assms(1,2) by (simp add: last_conv_nth nat_diff_distrib')
  have "onEnd f tx ty s lib = handleSwipe f d s lib"
    using onEnd_spec_direction[of f tx ty s lib] assms(3) by simp
  also have "\<dots> = (moveToNextPhoto s, managePhoto f t (last (photos s)) lib)"
    using handleSwipe_target[OF t i] p by simp
  finally have r: "s' = moveToNextPhoto s" "managePhoto f t (last (photos s)) lib = (lib', effs)"
    using assms(5) by simp_all
  have c: "calls_of effs = create_or_add f lib t (last (photos s))"
    using calls_managePhoto[of f t "last (photos s)" lib] r(2) by simp
  have th: "f = GetAlbumThrows \<longrightarrow> lib' = lib"
    using r(2) by (auto simp: managePhoto_def)
  have l: "f = NoFault \<longrightarrow>
            lib' = lib(t \<mapsto> (case lib t of None \<Rightarrow> [last (photos s)]
                                | Some ps \<Rightarrow> ps @ [last (photos s)]))"
    using managePhoto_NoFault[of t "last (photos s)" lib] r(2) by auto
  show ?thesis
    using r(1) moveToNextPhoto_last[OF assms(2)] c th l
    by (auto simp: create_or_add_def)
qed

text \<open>
  The theorem three times in a row on the last of two photos with downward swipes: the
  first creates "toDelete" seeded with the photo, the second, from the unchanged session,
  adds the same photo again, and the third, whose lookup throws, makes the lookup only.
\<close>

theorem last_photo_resubmitted_witness:
  "onEnd NoFault 0 70 (reviewing [photo_a, photo_b] 1) Map.empty
     = (reviewing [photo_a, photo_b] 1, [''toDelete'' \<mapsto> [photo_b]],
        [Call (GetAlbumAsync ''toDelete''), ConsoleLog (AlbumNotFoundCreating ''toDelete''),
         Call (CreateAlbumAsync ''toDelete'' photo_b False),
         ConsoleLog (AlbumCreatedPhotoAdded ''toDelete'')])
   \<and> onEnd NoFault 0 70 (reviewing [photo_a, photo_b] 1) [''toDelete'' \<mapsto> [photo_b]]
     = (reviewing [photo_a, photo_b] 1, [''toDelete'' \<mapsto> [photo_b, photo_b]],
        [Call (GetAlbumAsync ''toDelete''),
         Call (AddAssetsToAlbumAsync [photo_b] ''toDelete'' False),
         ConsoleLog (PhotoAddedToExisting ''toDelete'')])
   \<and> onEnd GetAlbumThrows 0 70 (reviewing [photo_a, photo_b] 1)
        [''toDelete'' \<mapsto> [photo_b, photo_b]]
     = (reviewing [photo_a, photo_b] 1, [''toDelete'' \<mapsto> [photo_b, photo_b]],
        [Call (GetAlbumAsync ''toDelete''), ConsoleError ErrorManagingPhoto])
   \<and> calls_of [Call (GetAlbumAsync ''toDelete''),
         Call (AddAssetsToAlbumAsync [photo_b] ''toDelete'' False),
         ConsoleLog (PhotoAddedToExisting ''toDelete'')]
     = [GetAlbumAsync ''toDelete'', AddAssetsToAlbumAsync [photo_b] ''toDelete'' False]"
proof -
  let ?s = "reviewing [photo_a, photo_b] 1"
  let ?e1 = "[Call (GetAlbumAsync ''toDelete''), ConsoleLog (AlbumNotFoundCreating ''toDelete''),
         Call (CreateAlbumAsync ''toDelete'' photo_b False),
         ConsoleLog (AlbumCreatedPhotoAdded ''toDelete'')]"
  let ?e2 = "[Call (GetAlbumAsync ''toDelete''),
         Call (AddAssetsToAlbumAsync [photo_b] ''toDelete'' False),
         ConsoleLog (PhotoAddedToExisting ''toDelete'')]"
  let ?e3 = "[Call (GetAlbumAsync ''toDelete''), ConsoleError ErrorManagingPhoto]"
  note defs = onEnd_def threshold_def handleSwipe_def photo_at_def managePhoto_def
    moveToNextPhoto_def reviewing_def
  have h1: "photos ?s \<noteq> []" by (simp add: reviewing_def)
  have h2: "currentIndex ?s = int (length (photos ?s)) - 1" by (simp add: reviewing_def)
  have h3: "spec_direction 0 70 = Some SwipeDown"
    by (simp add: spec_direction_def dominant_axis_def threshold_def)
  have h4: "(SwipeDown, ''toDelete'') \<in> {(SwipeRight, ''likedPhotos''),
              (SwipeUp, ''superlikedPhotos''), (SwipeDown, ''toDelete'')}" by simp
  have a: "onEnd NoFault 0 70 ?s Map.empty = (?s, [''toDelete'' \<mapsto> [photo_b]], ?e1)"
    by (simp add: defs)
  have b: "onEnd NoFault 0 70 ?s [''toDelete'' \<mapsto> [photo_b]]
             = (?s, [''toDelete'' \<mapsto> [photo_b, photo_b]], ?e2)"
    by (simp add: defs)
  have c: "onEnd GetAlbumThrows 0 70 ?s [''toDelete'' \<mapsto> [photo_b, photo_b]]
             = (?s, [''toDelete'' \<mapsto> [photo_b, photo_b]], ?e3)"
    by (simp add: defs)
  have ta: "calls_of ?e1 = [GetAlbumAsync ''toDelete'', CreateAlbumAsync ''toDelete'' photo_b False]"
    using last_photo_resubmitted[OF h1 h2 h3 h4 a] by (simp add: reviewing_def)
  have tb: "calls_of ?e2
              = [GetAlbumAsync ''toDelete'', AddAssetsToAlbumAsync [photo_b] ''toDelete'' False]"
    using last_photo_resubmitted[OF h1 h2 h3 h4 b] by (simp add: reviewing_def)
  have tc: "calls_of ?e3 = [GetAlbumAsync ''toDelete'']"
    using last_photo_resubmitted[OF h1 h2 h3 h4 c] by simp
  show ?thesis
    using a b c ta tb tc by simp
qed

text \<open>
  C8 as stated fails when the lookup throws: on the last of two photos, an upward swipe
  of 70 units whose \<open>getAlbumAsync\<close> rejects makes the lookup and nothing else; neither a
  creation nor an addition is called and the library is as before.
\<close>

theorem last_photo_lookup_throws_counterexample:
  "currentIndex (reviewing [photo_a, photo_b] 1)
     = int (length (photos (reviewing [photo_a, photo_b] 1))) - 1
   \<and> spec_direction 0 (- 70) = Some SwipeUp
   \<and> onEnd GetAlbumThrows 0 (- 70) (reviewing [photo_a, photo_b] 1) Map.empty
     = (reviewing [photo_a, photo_b] 1, Map.empty,
        [Call (GetAlbumAsync ''superlikedPhotos''), ConsoleError ErrorManagingPhoto])
   \<and> calls_of (snd (snd (onEnd GetAlbumThrows 0 (- 70) (reviewing [photo_a, photo_b] 1)
        Map.empty))) = [GetAlbumAsync ''superlikedPhotos'']"
  by (simp add: onEnd_def threshold_def handleSwipe_def photo_at_def managePhoto_def
        moveToNextPhoto_def reviewing_def spec_direction_def dominant_axis_def)

section \<open>Claims about whole review sessions\<close>

text \<open>
  C6. The index is 0 in the initial state and when the photo sequence has just been
  loaded, and after any sequence of events of a review session (releases, settlements of
  awaited library calls in any order, image loads) it satisfies
  \<open>0 \<le> currentIndex \<le> length\<close> of the loaded photo sequence. This holds whatever the
  asset query answers, a rejection included.
\<close>

theorem index_within_bounds:
  "currentIndex initial_session = 0
   \<and> currentIndex (shown (run albumId response [])) = 0
   \<and> 0 \<le> currentIndex (shown (run albumId response evs))
   \<and> currentIndex (shown (run albumId response evs))
       \<le> int (length (photos (shown (run albumId response evs))))"
proof -
  have first: "currentIndex (shown (run albumId response [])) = 0"
    by (cases response) (simp_all add: run_def mount_def loadPhotos_def initial_session_def)
  have "0 \<le> currentIndex (shown (run albumId response evs))
      \<and> currentIndex (shown (run albumId response evs))
          \<le> int (length (photos (shown (run albumId response evs))))"
  proof (cases "\<exists>assets. response = Inr assets \<and> assets \<noteq> []")
    case True
    then obtain assets where a: "response = Inr assets" "assets \<noteq> []" by blast
    from run_inv[OF a(2), of albumId evs] show ?thesis
      using a(1) by (simp add: session_inv_def in_range_def)
  next
    case False
    then have "response = Inr [] \<or> (\<exists>e. response = Inl e)" by (cases response) auto
    then have "run albumId response evs = mount albumId response"
      using run_idle[of response _ albumId evs] by blast
    then show ?thesis
      by (cases response) (simp_all add: mount_def loadPhotos_def initial_session_def)
  qed
  with first show ?thesis by (simp add: initial_session_def)
qed

text \<open>
  The theorem in a session over three photos in which a handler writes a stale index: a
  right swipe on photo 0 waits for its lookup, two left swipes move the index to 2, then
  the lookup rejects and the waiting handler sets the index to 0 + 1. The index is 1,
  within 0 and 3.
\<close>

theorem index_within_bounds_witness:
  "currentIndex (shown (run ''album'' (Inr [photo_c, photo_b, photo_a])
      [PanEnd 60 0, PanEnd (- 90) 3, PanEnd (- 90) 3])) = 2
   \<and> currentIndex (shown (run ''album'' (Inr [photo_c, photo_b, photo_a])
      [PanEnd 60 0, PanEnd (- 90) 3, PanEnd (- 90) 3, Settled 0 Throws])) = 1
   \<and> length (photos (shown (run ''album'' (Inr [photo_c, photo_b, photo_a])
      [PanEnd 60 0, PanEnd (- 90) 3, PanEnd (- 90) 3, Settled 0 Throws]))) = 3"
proof -
  let ?evs = "[PanEnd 60 0, PanEnd (- 90) 3, PanEnd (- 90) 3, Settled 0 Throws]"
  note defs = run_def mount_def loadPhotos_def initial_session_def photo_view_shown_def
    onEnd_start_def threshold_def handleSwipe_start_def handleSwipe_resume_def
    handleSwipe_end_def photo_at_def moveToNextPhoto_of_def Let_def
  have before: "currentIndex (shown (run ''album'' (Inr [photo_c, photo_b, photo_a])
      [PanEnd 60 0, PanEnd (- 90) 3, PanEnd (- 90) 3])) = 2"
    by (simp add: defs)
  have after: "shown (run ''album'' (Inr [photo_c, photo_b, photo_a]) ?evs)
          = \<lparr>photos = [photo_a, photo_b, photo_c], currentIndex = 1, loading = False,
             imageLoading = True\<rparr>"
    by (simp add: defs)
  from index_within_bounds[of "''album''" "Inr [photo_c, photo_b, photo_a]" ?evs] before after
  show ?thesis by simp
qed

text \<open>
  C7. When the loaded photo sequence is non-empty, after any sequence of events
  (overlapping swipes included) the index is at most \<open>length - 1\<close>, so
  \<open>photos[currentIndex]\<close> is a photo of the sequence: the component renders the photo
  view for it (never the failure of reading an undefined photo), and no handler has
  taken the "No photo available" branch.
\<close>

theorem index_below_length:
  assumes "assets \<noteq> []" and "run albumId (Inr assets) evs = r"
  shows "photos (shown r) = rev assets
       \<and> 0 \<le> currentIndex (shown r)
       \<and> currentIndex (shown r) \<le> int (length (photos (shown r))) - 1
       \<and> photo_at (photos (shown r)) (currentIndex (shown r))
           = Some (photos (shown r) ! nat (currentIndex (shown r)))
       \<and> render (shown r)
           = PhotoView (uri (photos (shown r) ! nat (currentIndex (shown r))))
               (imageLoading (shown r)) (currentIndex (shown r) + 1) (length (photos (shown r)))
       \<and> ConsoleError NoPhotoAvailable \<notin> set (trace r)"
proof -
  have i: "session_inv (rev assets) r"
    using run_inv[OF assms(1), of albumId evs] assms(2) by simp
  then have p: "photos (shown r) = rev assets" "\<not> loading (shown r)"
    and lo: "0 \<le> currentIndex (shown r)"
    and hi: "currentIndex (shown r) < int (length (photos (shown r)))"
    and tr: "ConsoleError NoPhotoAvailable \<notin> set (trace r)"
    by (simp_all add: session_inv_def in_range_def)
  have ne: "photos (shown r) \<noteq> []" using p(1) assms(1) by simp
  show ?thesis using p lo hi tr ne by (simp add: photo_at_def render_def)
qed

text \<open>
  The theorem in a session over two photos with two overlapping right swipes: both
  gestures end on photo 0 before either lookup has settled, so both handlers hold photo
  \<open>a\<close> and index 0. The first creates "likedPhotos", the second adds \<open>a\<close> to it again, and
  each sets the index to 1. The photo shown at the end is \<open>b\<close>, at index 1 of 2.
\<close>

theorem index_below_length_witness:
  "run ''album'' (Inr [photo_b, photo_a])
     [PanEnd 60 0, PanEnd 75 (- 5), Settled 0 ResolvesNull, Settled 0 Resolves,
      Settled 0 Resolves, Settled 0 Resolves, ImageLoad]
     = \<lparr>shown = reviewing [photo_a, photo_b] 1,
        trace = [Call (GetPhotoAssetsAsync ''album'' 1000), ConsoleLog (PhotosLogged []),
                 Call (GetAlbumAsync ''likedPhotos''), Call (GetAlbumAsync ''likedPhotos''),
                 ConsoleLog (AlbumNotFoundCreating ''likedPhotos''),
                 Call (CreateAlbumAsync ''likedPhotos'' photo_a False),
                 ConsoleLog (AlbumCreatedPhotoAdded ''likedPhotos''),
                 Call (AddAssetsToAlbumAsync [photo_a] ''likedPhotos'' False),
                 ConsoleLog (PhotoAddedToExisting ''likedPhotos'')],
        waiting = []\<rparr>
   \<and> render (reviewing [photo_a, photo_b] 1) = PhotoView ''file:///b.jpg'' False 2 2"
proof -
  let ?evs = "[PanEnd 60 0, PanEnd 75 (- 5), Settled 0 ResolvesNull, Settled 0 Resolves,
      Settled 0 Resolves, Settled 0 Resolves, ImageLoad]"
  let ?r = "\<lparr>shown = reviewing [photo_a, photo_b] 1,
        trace = [Call (GetPhotoAssetsAsync ''album'' 1000), ConsoleLog (PhotosLogged []),
                 Call (GetAlbumAsync ''likedPhotos''), Call (GetAlbumAsync ''likedPhotos''),
                 ConsoleLog (AlbumNotFoundCreating ''likedPhotos''),
                 Call (CreateAlbumAsync ''likedPhotos'' photo_a False),
                 ConsoleLog (AlbumCreatedPhotoAdded ''likedPhotos''),
                 Call (AddAssetsToAlbumAsync [photo_a] ''likedPhotos'' False),
                 ConsoleLog (PhotoAddedToExisting ''likedPhotos'')],
        waiting = []\<rparr>"
  note defs = run_def mount_def loadPhotos_def initial_session_def photo_view_shown_def
    onEnd_start_def threshold_def handleSwipe_start_def handleSwipe_resume_def
    handleSwipe_end_def photo_at_def moveToNextPhoto_of_def reviewing_def Let_def
  have h1: "[photo_b, photo_a] \<noteq> []" by simp
  have h2: "run ''album'' (Inr [photo_b, photo_a]) ?evs = ?r"
    by (simp add: defs)
  have "render (shown ?r) = PhotoView ''file:///b.jpg'' False 2 2"
    using index_below_length[OF h1 h2] by (simp add: reviewing_def photo_b_def)
  with h2 show ?thesis by simp
qed

section \<open>Claims about the album list\<close>

lemma mset_insert_by: "mset (insert_by cmp x xs) = add_mset x (mset xs)"
  by (induction xs) simp_all

lemma set_insert_by: "set (insert_by cmp x xs) = insert x (set xs)"
  by (induction xs) auto

lemma array_sort_Cons: "array_sort cmp (x # xs) = insert_by cmp x (array_sort cmp xs)"
  by (simp add: array_sort_def)

lemma mset_array_sort: "mset (array_sort cmp xs) = mset xs"
proof (induction xs)
  case Nil
  show ?case by (simp add: array_sort_def)
next
  case (Cons x xs)
  then show ?case by (simp add: array_sort_Cons mset_insert_by)
qed

lemma descending_insert_by:
  "sorted_wrt (\<lambda>a b. assetCount b \<le> assetCount a) xs
     \<Longrightarrow> sorted_wrt (\<lambda>a b. assetCount b \<le> assetCount a) (insert_by byCountDesc x xs)"
proof (induction xs)
  case Nil
  show ?case by simp
next
  case (Cons y ys)
  show ?case
  proof (cases "byCountDesc x y \<le> 0")
    case True
    then have "assetCount y \<le> assetCount x" by (simp add: byCountDesc_def)
    with Cons.prems True show ?thesis by fastforce
  next
    case False
    then have "assetCount x \<le> assetCount y" by (simp add: byCountDesc_def)
    with Cons False show ?thesis by (auto simp: set_insert_by)
  qed
qed

lemma descending_array_sort:
  "sorted_wrt (\<lambda>a b. assetCount b \<le> assetCount a) (array_sort byCountDesc xs)"
proof (induction xs)
  case Nil
  show ?case by (simp add: array_sort_def)
next
  case (Cons x xs)
  then show ?case by (simp add: array_sort_Cons descending_insert_by)
qed

lemma promise_all_map:
  "\<forall>x\<in>set xs. f x = Inr (g x) \<Longrightarrow> promise_all (map f xs) = Inr (map g xs)"
  by (induction xs) simp_all

lemma loadAlbums_granted:
  assumes "permission env = Inr ''granted''" and "all_albums env = Inr as"
    and "\<forall>a\<in>set as. total_count env (album_id a) = Inr (cnt a)"
  shows "loadAlbums env st =
           (st\<lparr>albums := array_sort byCountDesc
                  (map (\<lambda>a. \<lparr>awc_id = album_id a, awc_title = title a, assetCount = cnt a\<rparr>) as),
               albums_loading := False\<rparr>,
            [Call RequestPermissionsAsync, Call GetAlbumsAsync]
              @ map (\<lambda>a. Call (GetAssetsAsync (album_id a))) as)"
proof -
  have "\<forall>a\<in>set as. withCount env a
          = Inr \<lparr>awc_id = album_id a, awc_title = title a, assetCount = cnt a\<rparr>"
    using assms(3) by (simp add: withCount_def)
  then have "promise_all (map (withCount env) as)
          = Inr (map (\<lambda>a. \<lparr>awc_id = album_id a, awc_title = title a, assetCount = cnt a\<rparr>) as)"
    by (rule promise_all_map)
  then show ?thesis using assms(1,2) by (simp add: loadAlbums_def)
qed

text \<open>
  C9. When permission is granted and the library returns the albums \<open>as\<close> and, for each
  of them, its asset count \<open>cnt\<close>, the albums stored by the mount effect are a permutation
  of the returned albums annotated with their counts, their counts are non-increasing
  from first to last, and the component renders exactly these rows in this order.
\<close>

theorem albums_sorted_by_count_desc:
  assumes "permission env = Inr ''granted''" and "all_albums env = Inr as"
    and "\<forall>a\<in>set as. total_count env (album_id a) = Inr (cnt a)"
    and "loadAlbums env st = (st', effs)"
  shows "mset (albums st')
           = mset (map (\<lambda>a. \<lparr>awc_id = album_id a, awc_title = title a, assetCount = cnt a\<rparr>) as)
       \<and> sorted_wrt (\<lambda>a b. assetCount a \<ge> assetCount b) (albums st')
       \<and> render_albums st'
           = AlbumList (map (\<lambda>item. (awc_title item, assetCount item)) (albums st'))
       \<and> sorted_wrt (\<lambda>r r'. snd r \<ge> snd r')
           (map (\<lambda>item. (awc_title item, assetCount item)) (albums st'))"
proof -
  let ?awc = "map (\<lambda>a. \<lparr>awc_id = album_id a, awc_title = title a, assetCount = cnt a\<rparr>) as"
  have st': "albums st' = array_sort byCountDesc ?awc" "albums_loading st' = False"
    using loadAlbums_granted[OF assms(1,2,3), of st] assms(4) by auto
  have m: "mset (albums st') = mset ?awc" using st'(1) by (simp add: mset_array_sort)
  have d: "sorted_wrt (\<lambda>a b. assetCount a \<ge> assetCount b) (albums st')"
    using st'(1) descending_array_sort[of ?awc] by simp
  have r: "render_albums st'
             = AlbumList (map (\<lambda>item. (awc_title item, assetCount item)) (albums st'))"
    using st'(2) by (simp add: render_albums_def)
  have "sorted_wrt (\<lambda>r r'. snd r \<ge> snd r')
          (map (\<lambda>item. (awc_title item, assetCount item)) (albums st'))"
    using d by (simp add: sorted_wrt_map)
  with m d r show ?thesis by simp
qed

text \<open>
  The theorem for three albums with counts 3, 7 and 3: the list shown has the counts
  7, 3, 3, the two albums of equal count in the order the library returned them.
\<close>

theorem albums_sorted_by_count_desc_witness:
  "render_albums (fst (loadAlbums three_albums initial_album_screen))
     = AlbumList [(''Screenshots'', 7), (''Camera'', 3), (''Downloads'', 3)]
   \<and> sorted_wrt (\<lambda>r r'. snd r \<ge> snd r')
        [(''Screenshots'', 7::int), (''Camera'', 3), (''Downloads'', 3)]"
proof -
  let ?as = "[\<lparr>album_id = ''1'', title = ''Camera''\<rparr>,
              \<lparr>album_id = ''2'', title = ''Screenshots''\<rparr>,
              \<lparr>album_id = ''3'', title = ''Downloads''\<rparr>]"
  let ?cnt = "\<lambda>a. if album_id a = ''2'' then 7 else (3::int)"
  let ?st' = "\<lparr>albums = [\<lparr>awc_id = ''2'', awc_title = ''Screenshots'', assetCount = 7\<rparr>,
                          \<lparr>awc_id = ''1'', awc_title = ''Camera'', assetCount = 3\<rparr>,
                          \<lparr>awc_id = ''3'', awc_title = ''Downloads'', assetCount = 3\<rparr>],
               albums_loading = False\<rparr>"
  let ?effs = "[Call RequestPermissionsAsync, Call GetAlbumsAsync, Call (GetAssetsAsync ''1''),
                Call (GetAssetsAsync ''2''), Call (GetAssetsAsync ''3'')]"
  have h1: "permission three_albums = Inr ''granted''" by (simp add: three_albums_def)
  have h2: "all_albums three_albums = Inr ?as" by (simp add: three_albums_def)
  have h3: "\<forall>a\<in>set ?as. total_count three_albums (album_id a) = Inr (?cnt a)"
    by (simp add: three_albums_def)
  have h4: "loadAlbums three_albums initial_album_screen = (?st', ?effs)"
    by (simp add: loadAlbums_def three_albums_def initial_album_screen_def withCount_def
        array_sort_def byCountDesc_def)
  from albums_sorted_by_count_desc[OF h1 h2 h3 h4] h4 show ?thesis by simp
qed

text \<open>
  C10. When the permission request returns a status other than "granted", the mount
  effect ends there: the loading flag is cleared and the album list is still empty, so
  the component shows an empty list; the only media-library call made is the one
  permission request (no album query, no second request), and the only other effect is
  one line on the console log.
\<close>

theorem permission_denied_halts:
  assumes "permission env = Inr status" and "status \<noteq> ''granted''"
  shows "loadAlbums env initial_album_screen
           = (\<lparr>albums = [], albums_loading = False\<rparr>,
              [Call RequestPermissionsAsync, ConsoleLog PermissionDenied])
       \<and> render_albums (fst (loadAlbums env initial_album_screen)) = AlbumList []
       \<and> calls_of (snd (loadAlbums env initial_album_screen)) = [RequestPermissionsAsync]"
  using assms by (simp add: loadAlbums_def initial_album_screen_def render_albums_def)

theorem permission_denied_halts_witness:
  "permission permission_refused = Inr ''denied'' \<and> ''denied'' \<noteq> ''granted''
   \<and> loadAlbums permission_refused initial_album_screen
       = (\<lparr>albums = [], albums_loading = False\<rparr>,
          [Call RequestPermissionsAsync, ConsoleLog PermissionDenied])"
proof -
  have h1: "permission permission_refused = Inr ''denied''" by (simp add: permission_refused_def)
  have h2: "''denied'' \<noteq> ''granted''" by simp
  from permission_denied_halts[OF h1 h2] h1 h2 show ?thesis by simp
qed

end
